theory Spec2Isabelle
  imports Main
begin

section \<open>Tuple model\<close>

text \<open>
  The collectors of \<^verbatim>\<open>pkg/services/accesscontrol/dualwrite/collectors.go\<close> build
  relation tuples.  A tuple key has a subject (\<open>User\<close>), a relation, an object and an
  optional condition.  The condition of a folder-scoped resource grant carries the set of
  resource-group identifiers the grant applies to.
\<close>

datatype error = Error string

record TupleKey =
  User :: string
  Relation :: string
  Object :: string
  Condition :: "string set option"

text \<open>
  Modelled from the spec: the type and relation constants of package \<^verbatim>\<open>zanzana\<close>
  are declared outside the source file.  The spec writes tuples as
  \<^verbatim>\<open>team:t1#team-admin@user:u1\<close> and \<^verbatim>\<open>folder:f2#parent@folder:f1\<close>.
\<close>

definition TypeUser :: string where
  "TypeUser = ''user''"

definition TypeTeam :: string where
  "TypeTeam = ''team''"

definition TypeFolder :: string where
  "TypeFolder = ''folder''"

definition RelationTeamAdmin :: string where
  "RelationTeamAdmin = ''team-admin''"

definition RelationTeamMember :: string where
  "RelationTeamMember = ''team-member''"

definition RelationParent :: string where
  "RelationParent = ''parent''"

text \<open>
  Modelled from the spec: \<^verbatim>\<open>zanzana.NewTupleEntry\<close> is declared outside the source
  file.  Subjects and objects are encoded as \<^verbatim>\<open>type:identifier[#sub-relation]\<close>.
\<close>

definition NewTupleEntry :: "string \<Rightarrow> string \<Rightarrow> string \<Rightarrow> string" where
  "NewTupleEntry objectType name relation =
     (if relation = [] then objectType @ '':'' @ name
      else objectType @ '':'' @ name @ ''#'' @ relation)"

text \<open>
  Modelled from the spec: the string form of a tuple key (\<^verbatim>\<open>TupleKey.String\<close>) is
  declared outside the source file.  The full string form is
  \<^verbatim>\<open>object#relation@subject[,condition]\<close>.  The spec does not fix how a condition is
  printed, so the printer of conditions is the parameter \<open>cstr\<close>.
\<close>

definition TupleKey_String :: "(string set \<Rightarrow> string) \<Rightarrow> TupleKey \<Rightarrow> string" where
  "TupleKey_String cstr t =
     Object t @ ''#'' @ Relation t @ ''@'' @ User t @
       (case Condition t of None \<Rightarrow> [] | Some c \<Rightarrow> '','' @ cstr c)"

text \<open>
  \<^verbatim>\<open>tupleStringWithoutCondition\<close> (lines 191-197) works on a pointer: it saves the
  condition, clears it, prints the tuple and writes the saved condition back.  The model
  passes the tuple in and returns the string together with the tuple as the call leaves it.
\<close>

definition tupleStringWithoutCondition ::
    "(string set \<Rightarrow> string) \<Rightarrow> TupleKey \<Rightarrow> string \<times> TupleKey" where
  "tupleStringWithoutCondition cstr tuple =
     (let c = Condition tuple;
          tuple1 = tuple\<lparr>Condition := None\<rparr>;
          s = TupleKey_String cstr tuple1;
          tuple2 = tuple1\<lparr>Condition := c\<rparr>
      in (s, tuple2))"

section \<open>Collection results\<close>

text \<open>
  A legacy collector returns a map from object to a map from tuple key string to tuple.
  Go returns the pair of the map and the error; \<open>None\<close> stands for \<^verbatim>\<open>nil\<close>.
\<close>

type_synonym tuplemap = "string \<rightharpoonup> (string \<rightharpoonup> TupleKey)"

type_synonym legacyResult = "tuplemap option \<times> error option"

text \<open>Lines 53-55, 102-104 and 167-169: create the inner map of an object on first use.\<close>

definition initObject :: "tuplemap \<Rightarrow> string \<Rightarrow> tuplemap" where
  "initObject tuples obj = (if tuples obj = None then tuples(obj \<mapsto> Map.empty) else tuples)"

text \<open>
  Reading \<^verbatim>\<open>tuples[obj]\<close>: a missing object reads as the nil map, which has no
  entries.
\<close>

definition innerOf :: "tuplemap \<Rightarrow> string \<Rightarrow> (string \<rightharpoonup> TupleKey)" where
  "innerOf tuples obj = (case tuples obj of None \<Rightarrow> Map.empty | Some inner \<Rightarrow> inner)"

text \<open>Reading \<^verbatim>\<open>tuples[obj][key]\<close>.\<close>

definition lookup2 :: "tuplemap \<Rightarrow> string \<Rightarrow> string \<Rightarrow> TupleKey option" where
  "lookup2 tuples obj key = innerOf tuples obj key"

text \<open>
  The assignment \<^verbatim>\<open>tuples[obj][key] = tuple\<close>.  Every such assignment in the source
  follows \<open>initObject\<close> for the same object, so the inner map exists when it runs.
\<close>

definition storeTuple :: "tuplemap \<Rightarrow> string \<Rightarrow> string \<Rightarrow> TupleKey \<Rightarrow> tuplemap" where
  "storeTuple tuples obj key tuple = tuples(obj \<mapsto> (innerOf tuples obj)(key \<mapsto> tuple))"

section \<open>Team membership collector\<close>

record membership =
  m_TeamUID :: string
  m_UserUID :: string
  m_Permission :: int

text \<open>Lines 41-51: the tuple built for one membership row.\<close>

definition membershipTuple :: "membership \<Rightarrow> TupleKey" where
  "membershipTuple m =
     (let tuple = \<lparr>User = NewTupleEntry TypeUser (m_UserUID m) [],
                   Relation = [],
                   Object = NewTupleEntry TypeTeam (m_TeamUID m) [],
                   Condition = None\<rparr>
      in if m_Permission m = 4 then tuple\<lparr>Relation := RelationTeamAdmin\<rparr>
         else tuple\<lparr>Relation := RelationTeamMember\<rparr>)"

text \<open>Lines 40-58: the loop over the membership rows.\<close>

fun teamMembershipLoop ::
    "(string set \<Rightarrow> string) \<Rightarrow> tuplemap \<Rightarrow> membership list \<Rightarrow> tuplemap" where
  "teamMembershipLoop cstr tuples [] = tuples"
| "teamMembershipLoop cstr tuples (m # ms) =
     (let tuple = membershipTuple m;
          tuples1 = initObject tuples (Object tuple);
          tuples2 = storeTuple tuples1 (Object tuple) (TupleKey_String cstr tuple) tuple
      in teamMembershipLoop cstr tuples2 ms)"

text \<open>
  Lines 14-62.  \<open>store\<close> is what the query of the team memberships returns: an error or
  the rows.  The organisation id is not used by the source.
\<close>

definition teamMembershipCollector ::
    "(string set \<Rightarrow> string) \<Rightarrow> error + membership list \<Rightarrow> int \<Rightarrow> legacyResult" where
  "teamMembershipCollector cstr store orgId =
     (case store of
        Inl err \<Rightarrow> (None, Some err)
      | Inr memberships \<Rightarrow> (Some (teamMembershipLoop cstr Map.empty memberships), None))"

section \<open>Folder tree collector\<close>

record folder =
  f_OrgID :: int
  f_FolderUID :: string
  f_ParentUID :: string

text \<open>Lines 96-100: the tuple built for a folder that has a parent.\<close>

definition folderTuple :: "folder \<Rightarrow> TupleKey" where
  "folderTuple f =
     \<lparr>User = NewTupleEntry TypeFolder (f_ParentUID f) [],
      Relation = RelationParent,
      Object = NewTupleEntry TypeFolder (f_FolderUID f) [],
      Condition = None\<rparr>"

text \<open>Lines 90-107: the loop over the folder rows.\<close>

fun folderTreeLoop ::
    "(string set \<Rightarrow> string) \<Rightarrow> tuplemap \<Rightarrow> folder list \<Rightarrow> tuplemap" where
  "folderTreeLoop cstr tuples [] = tuples"
| "folderTreeLoop cstr tuples (f # fs) =
     (if f_ParentUID f = [] then folderTreeLoop cstr tuples fs
      else
        let tuple = folderTuple f;
            tuples1 = initObject tuples (Object tuple);
            tuples2 = storeTuple tuples1 (Object tuple) (TupleKey_String cstr tuple) tuple
        in folderTreeLoop cstr tuples2 fs)"

text \<open>Lines 65-111.\<close>

definition folderTreeCollector ::
    "(string set \<Rightarrow> string) \<Rightarrow> error + folder list \<Rightarrow> int \<Rightarrow> legacyResult" where
  "folderTreeCollector cstr store orgId =
     (case store of
        Inl err \<Rightarrow> (None, Some err)
      | Inr folders \<Rightarrow> (Some (folderTreeLoop cstr Map.empty folders), None))"

section \<open>Managed permissions collector\<close>

record Permission =
  p_RoleName :: string
  p_OrgID :: int
  p_Action :: string
  p_Kind :: string
  p_Identifier :: string
  p_UserUID :: string
  p_TeamUID :: string

text \<open>
  Modelled from the spec: \<^verbatim>\<open>zanzana.MergeFolderResourceTuples\<close> is declared outside
  the source file.  It merges the resource-group condition of the new grant into the
  stored tuple: the stored tuple keeps its subject, relation and object, and its condition
  set becomes the union of both sets.  A grant without a condition adds nothing.
\<close>

definition MergeFolderResourceTuples :: "TupleKey \<Rightarrow> TupleKey \<Rightarrow> TupleKey" where
  "MergeFolderResourceTuples a b =
     (case Condition b of
        None \<Rightarrow> a
      | Some gb \<Rightarrow>
          a\<lparr>Condition := Some ((case Condition a of None \<Rightarrow> {} | Some ga \<Rightarrow> ga) \<union> gb)\<rparr>)"

text \<open>
  Lines 152-160: the subject of a row.  \<open>None\<close> is the \<^verbatim>\<open>continue\<close> of a row that
  is bound to neither a user nor a team.
\<close>

definition permissionSubject :: "Permission \<Rightarrow> string option" where
  "permissionSubject p =
     (if length (p_UserUID p) > 0 then Some (NewTupleEntry TypeUser (p_UserUID p) [])
      else if length (p_TeamUID p) > 0 then Some (NewTupleEntry TypeTeam (p_TeamUID p) ''member'')
      else None)"

text \<open>
  Lines 152-165: the tuple of a row.  \<^verbatim>\<open>zanzana.TranslateToResourceTuple\<close> is declared
  outside the source file and the spec leaves the translation open, so it is the parameter
  \<open>translate\<close>; it returns \<open>None\<close> when the source's \<^verbatim>\<open>ok\<close> is false.  \<open>None\<close> is
  the \<^verbatim>\<open>continue\<close> of both skipped cases.
\<close>

definition permissionTuple ::
    "(string \<Rightarrow> string \<Rightarrow> string \<Rightarrow> string \<Rightarrow> TupleKey option) \<Rightarrow> Permission \<Rightarrow>
     TupleKey option" where
  "permissionTuple translate p =
     (case permissionSubject p of
        None \<Rightarrow> None
      | Some subject \<Rightarrow> translate subject (p_Action p) (p_Kind p) (p_Identifier p))"

text \<open>
  Lines 167-184: filing the tuple of a row.  \<^verbatim>\<open>zanzana.IsFolderResourceTuple\<close> is
  declared outside the source file and the spec leaves the test open, so it is the
  parameter \<open>isFolderResourceTuple\<close>.  The merge writes through the pointer held by the
  map, so the entry of the map holds the merged tuple afterwards.
\<close>

definition storeResourceTuple ::
    "(TupleKey \<Rightarrow> bool) \<Rightarrow> (string set \<Rightarrow> string) \<Rightarrow> tuplemap \<Rightarrow> TupleKey \<Rightarrow> tuplemap" where
  "storeResourceTuple isFolderResourceTuple cstr tuples tuple =
     (let tuples1 = initObject tuples (Object tuple) in
      if isFolderResourceTuple tuple then
        (case tupleStringWithoutCondition cstr tuple of
           (key, tuple') \<Rightarrow>
             (case lookup2 tuples1 (Object tuple') key of
                Some t \<Rightarrow>
                  storeTuple tuples1 (Object tuple') key (MergeFolderResourceTuples t tuple')
              | None \<Rightarrow> storeTuple tuples1 (Object tuple') key tuple'))
      else storeTuple tuples1 (Object tuple) (TupleKey_String cstr tuple) tuple)"

text \<open>Lines 151-185: one iteration of the loop over the permission rows.\<close>

definition managedPermissionsStep ::
    "(string \<Rightarrow> string \<Rightarrow> string \<Rightarrow> string \<Rightarrow> TupleKey option) \<Rightarrow> (TupleKey \<Rightarrow> bool) \<Rightarrow>
     (string set \<Rightarrow> string) \<Rightarrow> tuplemap \<Rightarrow> Permission \<Rightarrow> tuplemap" where
  "managedPermissionsStep translate isFolderResourceTuple cstr tuples p =
     (case permissionTuple translate p of
        None \<Rightarrow> tuples
      | Some tuple \<Rightarrow> storeResourceTuple isFolderResourceTuple cstr tuples tuple)"

fun managedPermissionsLoop ::
    "(string \<Rightarrow> string \<Rightarrow> string \<Rightarrow> string \<Rightarrow> TupleKey option) \<Rightarrow> (TupleKey \<Rightarrow> bool) \<Rightarrow>
     (string set \<Rightarrow> string) \<Rightarrow> tuplemap \<Rightarrow> Permission list \<Rightarrow> tuplemap" where
  "managedPermissionsLoop translate isFolderResourceTuple cstr tuples [] = tuples"
| "managedPermissionsLoop translate isFolderResourceTuple cstr tuples (p # ps) =
     managedPermissionsLoop translate isFolderResourceTuple cstr
       (managedPermissionsStep translate isFolderResourceTuple cstr tuples p) ps"

text \<open>
  Lines 116-189.  \<open>store\<close> is what the query returns for a permission kind: an error or the
  rows.
\<close>

definition managedPermissionsCollector ::
    "(string \<Rightarrow> string \<Rightarrow> string \<Rightarrow> string \<Rightarrow> TupleKey option) \<Rightarrow> (TupleKey \<Rightarrow> bool) \<Rightarrow>
     (string set \<Rightarrow> string) \<Rightarrow> (string \<Rightarrow> error + Permission list) \<Rightarrow> string \<Rightarrow> int \<Rightarrow>
     legacyResult" where
  "managedPermissionsCollector translate isFolderResourceTuple cstr store kind orgId =
     (case store kind of
        Inl err \<Rightarrow> (None, Some err)
      | Inr permissions \<Rightarrow>
          (Some (managedPermissionsLoop translate isFolderResourceTuple cstr Map.empty
                   permissions), None))"

section \<open>Authorization-engine mirror collector\<close>

record ReadRequestTupleKey =
  rk_Object :: string
  rk_Relation :: string

text \<open>
  Modelled from the spec: the request type is declared outside the source file.  The source
  sets the namespace and the tuple key; the continuation token is the field that the
  intended contract of section 9 asks a follow-up read to carry.  A field that a Go struct
  literal leaves out holds the empty string.
\<close>

record ReadRequest =
  rq_Namespace :: string
  rq_TupleKey :: ReadRequestTupleKey
  rq_ContinuationToken :: string

record Tuple =
  Key :: TupleKey

record ReadResponse =
  rs_Tuples :: "Tuple list"
  rs_ContinuationToken :: string

text \<open>
  The client is an interface.  A call of \<^verbatim>\<open>Read\<close> may change the client, so a client
  is a function from its state and the request to the answer and the next state.  The
  model also keeps the list of the calls made so far, oldest first.
\<close>

type_synonym 's client = "'s \<Rightarrow> ReadRequest \<Rightarrow> (error + ReadResponse) \<times> 's"

type_synonym call = "ReadRequest \<times> (error + ReadResponse)"

type_synonym 's world = "'s \<times> call list"

definition clientRead ::
    "'s client \<Rightarrow> 's world \<Rightarrow> ReadRequest \<Rightarrow> (error + ReadResponse) \<times> 's world" where
  "clientRead read w req =
     (case read (fst w) req of (res, s') \<Rightarrow> (res, (s', snd w @ [(req, res)])))"

text \<open>
  Lines 203-209 and lines 218-224: both requests are the same struct literal, which sets
  the namespace, the object and the relation and nothing else.
\<close>

definition listRequest :: "string \<Rightarrow> string \<Rightarrow> string \<Rightarrow> ReadRequest" where
  "listRequest namespace object relation =
     \<lparr>rq_Namespace = namespace,
      rq_TupleKey = \<lparr>rk_Object = object, rk_Relation = relation\<rparr>,
      rq_ContinuationToken = []\<rparr>"

text \<open>
  Modelled from the spec: \<^verbatim>\<open>common.ToOpenFGATuples\<close> is declared outside the source
  file.  It converts each tuple of the accumulated list to the engine's own tuple type and
  keeps its key; both tuple types are the record \<open>Tuple\<close> here.
\<close>

definition ToOpenFGATuples :: "Tuple list \<Rightarrow> Tuple list" where
  "ToOpenFGATuples tuples = map (\<lambda>t. \<lparr>Key = Key t\<rparr>) tuples"

text \<open>
  Lines 217-233: the pagination loop, entered with the token \<open>c\<close> and the tuples
  accumulated so far.  The loop may run forever, which is the value \<open>None\<close>.  The nil
  slice returned with an error is the empty list.
\<close>

partial_function (option) listLoop ::
    "'s client \<Rightarrow> string \<Rightarrow> string \<Rightarrow> string \<Rightarrow> string \<Rightarrow> Tuple list \<Rightarrow> 's world \<Rightarrow>
     ((Tuple list \<times> error option) \<times> 's world) option" where
  "listLoop read namespace object relation c firstTuples w =
     (if c \<noteq> [] then
        (case clientRead read w (listRequest namespace object relation) of
           (Inl err, w') \<Rightarrow> Some (([], Some err), w')
         | (Inr res, w') \<Rightarrow>
             listLoop read namespace object relation (rs_ContinuationToken res)
               (firstTuples @ rs_Tuples res) w')
      else Some ((ToOpenFGATuples firstTuples, None), w))"

text \<open>Lines 202-234: the closure \<^verbatim>\<open>list\<close>.\<close>

definition listRelation ::
    "'s client \<Rightarrow> string \<Rightarrow> string \<Rightarrow> string \<Rightarrow> 's world \<Rightarrow>
     ((Tuple list \<times> error option) \<times> 's world) option" where
  "listRelation read namespace object relation w =
     (case clientRead read w (listRequest namespace object relation) of
        (Inl err, w') \<Rightarrow> Some (([], Some err), w')
      | (Inr first, w') \<Rightarrow>
          listLoop read namespace object relation (rs_ContinuationToken first)
            (rs_Tuples first) w')"

text \<open>Lines 242-248: the loop that files the tuples of one relation into \<open>out\<close>.\<close>

fun insertTuples ::
    "(TupleKey \<Rightarrow> bool) \<Rightarrow> (string set \<Rightarrow> string) \<Rightarrow> (string \<rightharpoonup> TupleKey) \<Rightarrow> Tuple list \<Rightarrow>
     (string \<rightharpoonup> TupleKey)" where
  "insertTuples isFolderResourceTuple cstr out [] = out"
| "insertTuples isFolderResourceTuple cstr out (t # ts) =
     (if isFolderResourceTuple (Key t) then
        (case tupleStringWithoutCondition cstr (Key t) of
           (key, k') \<Rightarrow> insertTuples isFolderResourceTuple cstr (out(key \<mapsto> k')) ts)
      else
        insertTuples isFolderResourceTuple cstr (out(TupleKey_String cstr (Key t) \<mapsto> Key t)) ts)"

text \<open>Lines 237-249: the loop over the requested relations.\<close>

fun zanzanaLoop ::
    "(TupleKey \<Rightarrow> bool) \<Rightarrow> (string set \<Rightarrow> string) \<Rightarrow> 's client \<Rightarrow> string \<Rightarrow> string \<Rightarrow>
     string list \<Rightarrow> (string \<rightharpoonup> TupleKey) \<Rightarrow> 's world \<Rightarrow>
     (((string \<rightharpoonup> TupleKey) option \<times> error option) \<times> 's world) option" where
  "zanzanaLoop isFolderResourceTuple cstr read object namespace [] out w =
     Some ((Some out, None), w)"
| "zanzanaLoop isFolderResourceTuple cstr read object namespace (r # rs) out w =
     (case listRelation read namespace object r w of
        None \<Rightarrow> None
      | Some ((tuples, Some err), w') \<Rightarrow> Some ((None, Some err), w')
      | Some ((tuples, None), w') \<Rightarrow>
          zanzanaLoop isFolderResourceTuple cstr read object namespace rs
            (insertTuples isFolderResourceTuple cstr out tuples) w')"

text \<open>
  Lines 199-253.  The collector starts from the client state \<open>s\<close> with no call made yet
  and returns the map and the error together with the final client state and the calls
  made.
\<close>

definition zanzanaCollector ::
    "(TupleKey \<Rightarrow> bool) \<Rightarrow> (string set \<Rightarrow> string) \<Rightarrow> string list \<Rightarrow> 's client \<Rightarrow> string \<Rightarrow>
     string \<Rightarrow> 's \<Rightarrow> (((string \<rightharpoonup> TupleKey) option \<times> error option) \<times> 's world) option" where
  "zanzanaCollector isFolderResourceTuple cstr relations read object namespace s =
     zanzanaLoop isFolderResourceTuple cstr read object namespace relations Map.empty (s, [])"

section \<open>The client's answers to repeated reads\<close>

text \<open>
  The interface contract of the client speaks of repeated calls with the same request.
  \<open>readsAfter read req s n\<close> is the state of the client after \<open>n\<close> calls with the
  request \<open>req\<close> from the state \<open>s\<close>, \<open>nthResponse read req s n\<close> is its answer to
  the next call, and \<open>pages read req s n\<close> are the tuples of its first \<open>n\<close> answers, in
  the order of the calls.
\<close>

fun readsAfter :: "'s client \<Rightarrow> ReadRequest \<Rightarrow> 's \<Rightarrow> nat \<Rightarrow> 's" where
  "readsAfter read req s 0 = s"
| "readsAfter read req s (Suc n) = readsAfter read req (snd (read s req)) n"

definition nthResponse :: "'s client \<Rightarrow> ReadRequest \<Rightarrow> 's \<Rightarrow> nat \<Rightarrow> error + ReadResponse" where
  "nthResponse read req s n = fst (read (readsAfter read req s n) req)"

fun pages :: "'s client \<Rightarrow> ReadRequest \<Rightarrow> 's \<Rightarrow> nat \<Rightarrow> Tuple list" where
  "pages read req s 0 = []"
| "pages read req s (Suc n) =
     (case read s req of
        (Inl err, s') \<Rightarrow> []
      | (Inr res, s') \<Rightarrow> rs_Tuples res @ pages read req s' n)"

text \<open>
  The loop goes on after the answer number \<open>k\<close> when that answer is a page with a
  non-empty continuation token.
\<close>

definition morePages :: "'s client \<Rightarrow> ReadRequest \<Rightarrow> 's \<Rightarrow> nat \<Rightarrow> bool" where
  "morePages read req s k =
     (case nthResponse read req s k of
        Inl err \<Rightarrow> False
      | Inr res \<Rightarrow> rs_ContinuationToken res \<noteq> [])"

section \<open>The mirror collector's result as the spec words it\<close>

text \<open>
  The canonical key of a tuple: a folder-resource tuple is keyed by the string form of the
  tuple without its condition, every other tuple by its full string form.
\<close>

definition canonicalKey :: "(TupleKey \<Rightarrow> bool) \<Rightarrow> (string set \<Rightarrow> string) \<Rightarrow> TupleKey \<Rightarrow> string" where
  "canonicalKey isFolderResourceTuple cstr k =
     (if isFolderResourceTuple k then TupleKey_String cstr (k\<lparr>Condition := None\<rparr>)
      else TupleKey_String cstr k)"

text \<open>
  Deduplication where the last write wins: a key holds the key of the last tuple of the
  list with that canonical key, as that tuple came, and nothing when there is none.
\<close>

definition lastWriteWins ::
    "(TupleKey \<Rightarrow> bool) \<Rightarrow> (string set \<Rightarrow> string) \<Rightarrow> Tuple list \<Rightarrow> (string \<rightharpoonup> TupleKey)" where
  "lastWriteWins isFolderResourceTuple cstr ts key =
     map_option Key (find (\<lambda>t. canonicalKey isFolderResourceTuple cstr (Key t) = key) (rev ts))"

text \<open>
  All tuples for all requested relations: the lists of the relations, one after the other,
  in the order of the relations.  A read error ends the collection.
\<close>

fun relationsTuples ::
    "'s client \<Rightarrow> string \<Rightarrow> string \<Rightarrow> string list \<Rightarrow> 's world \<Rightarrow>
     ((Tuple list \<times> error option) \<times> 's world) option" where
  "relationsTuples read namespace object [] w = Some (([], None), w)"
| "relationsTuples read namespace object (r # rs) w =
     (case listRelation read namespace object r w of
        None \<Rightarrow> None
      | Some ((ts, Some err), w') \<Rightarrow> Some (([], Some err), w')
      | Some ((ts, None), w') \<Rightarrow>
          (case relationsTuples read namespace object rs w' of
             None \<Rightarrow> None
           | Some ((ts', Some err), w'') \<Rightarrow> Some (([], Some err), w'')
           | Some ((ts', None), w'') \<Rightarrow> Some ((ts @ ts', None), w'')))"

text \<open>The result of the collector for the outcome of that collection.\<close>

definition mirrorResult ::
    "(TupleKey \<Rightarrow> bool) \<Rightarrow> (string set \<Rightarrow> string) \<Rightarrow> (Tuple list \<times> error option) \<times> 's world \<Rightarrow>
     ((string \<rightharpoonup> TupleKey) option \<times> error option) \<times> 's world" where
  "mirrorResult isFolderResourceTuple cstr r =
     (case r of
        ((ts, None), w) \<Rightarrow> ((Some (lastWriteWins isFolderResourceTuple cstr ts), None), w)
      | ((ts, Some err), w) \<Rightarrow> ((None, Some err), w))"

section \<open>Calls and their outcome\<close>

text \<open>
  The calls of a run fit the error the run returns when every call but the last answered
  with a page and the last call answered with that error, or, for a run without an error,
  when every call answered with a page.
\<close>

definition answeredPage :: "call \<Rightarrow> bool" where
  "answeredPage x = (case snd x of Inl err \<Rightarrow> False | Inr res \<Rightarrow> True)"

definition callsFit :: "call list \<Rightarrow> error option \<Rightarrow> bool" where
  "callsFit calls err =
     (case err of
        None \<Rightarrow> list_all answeredPage calls
      | Some e \<Rightarrow>
          calls \<noteq> [] \<and> snd (last calls) = Inl e \<and> list_all answeredPage (butlast calls))"

section \<open>A fake client\<close>

text \<open>
  The fake client of the spec's testable properties: it answers its calls from a script,
  one answer per call in the order of the script, whatever the request is.  Its state is
  the number of calls it has answered.
\<close>

definition scriptedClient :: "(error + ReadResponse) list \<Rightarrow> nat client" where
  "scriptedClient script s req =
     (if s < length script then script ! s else Inl (Error ''script exhausted''), Suc s)"

text \<open>
  A server that pages by continuation token, as the spec describes the engine's read
  endpoint: the answer depends on the token of the request alone.  The page for the empty
  token is the first page; a token the server does not know is an error.  The server has
  no state.
\<close>

definition pagedServer :: "(string \<times> ReadResponse) list \<Rightarrow> unit client" where
  "pagedServer pageTable s req =
     (case map_of pageTable (rq_ContinuationToken req) of
        None \<Rightarrow> (Inl (Error ''invalid continuation token''), s)
      | Some res \<Rightarrow> (Inr res, s))"

section \<open>Properties of the tuple model\<close>

lemma tupleStringWithoutCondition_eq:
  "tupleStringWithoutCondition cstr k = (TupleKey_String cstr (k\<lparr>Condition := None\<rparr>), k)"
  by (simp add: tupleStringWithoutCondition_def Let_def)

text \<open>
  C10: for every tuple, \<open>tupleStringWithoutCondition\<close> returns the string form of the
  tuple with its condition cleared, and the tuple it leaves behind is the tuple it was
  given, condition included.
\<close>

theorem tupleStringWithoutCondition_frame:
  "tupleStringWithoutCondition cstr tuple =
     (TupleKey_String cstr (tuple\<lparr>Condition := None\<rparr>), tuple)"
  by (simp add: tupleStringWithoutCondition_def Let_def)

section \<open>Properties of the legacy collectors\<close>

lemma lookup2_storeTuple_initObject:
  "lookup2 (storeTuple (initObject tuples obj) obj key t) obj' key' =
     (if obj' = obj \<and> key' = key then Some t else lookup2 tuples obj' key')"
  by (auto simp: lookup2_def storeTuple_def initObject_def innerOf_def split: option.splits)

lemma lookup2_empty: "lookup2 Map.empty obj key = None"
  by (simp add: lookup2_def innerOf_def)

subsection \<open>Team memberships\<close>

text \<open>
  Two membership tuples of the same team with the same key are the same tuple: the two
  team relations differ, and the subject is the rest of the key.
\<close>

lemma membershipTuple_same_key:
  assumes "Object (membershipTuple m) = Object (membershipTuple m')"
    and "TupleKey_String cstr (membershipTuple m) = TupleKey_String cstr (membershipTuple m')"
  shows "membershipTuple m = membershipTuple m'"
  using assms
  by (auto simp: membershipTuple_def TupleKey_String_def NewTupleEntry_def TypeUser_def
      TypeTeam_def RelationTeamAdmin_def RelationTeamMember_def Let_def split: if_splits)

lemma teamMembershipLoop_lookup2:
  assumes "\<And>obj key t. lookup2 tuples obj key = Some t \<longleftrightarrow>
             t \<in> membershipTuple ` S \<and> obj = Object t \<and> key = TupleKey_String cstr t"
  shows "lookup2 (teamMembershipLoop cstr tuples ms) obj key = Some t \<longleftrightarrow>
           t \<in> membershipTuple ` (S \<union> set ms) \<and> obj = Object t \<and> key = TupleKey_String cstr t"
  using assms
proof (induction ms arbitrary: tuples S)
  case Nil
  then show ?case by simp
next
  case (Cons m ms)
  let ?tm = "membershipTuple m"
  let ?tuples2 = "storeTuple (initObject tuples (Object ?tm)) (Object ?tm)
                    (TupleKey_String cstr ?tm) ?tm"
  have step: "lookup2 ?tuples2 obj' key' = Some t' \<longleftrightarrow>
                t' \<in> membershipTuple ` (insert m S) \<and> obj' = Object t' \<and>
                key' = TupleKey_String cstr t'" for obj' key' t'
  proof (cases "obj' = Object ?tm \<and> key' = TupleKey_String cstr ?tm")
    case True
    then show ?thesis
      using membershipTuple_same_key [of _ m cstr]
      by (auto simp: lookup2_storeTuple_initObject)
  next
    case False
    then show ?thesis
      using Cons.prems [of obj' key' t']
      by (auto simp: lookup2_storeTuple_initObject)
  qed
  have "lookup2 (teamMembershipLoop cstr ?tuples2 ms) obj key = Some t \<longleftrightarrow>
          t \<in> membershipTuple ` (insert m S \<union> set ms) \<and> obj = Object t \<and>
          key = TupleKey_String cstr t"
    by (rule Cons.IH) (rule step)
  then show ?case by (simp add: Let_def)
qed

text \<open>
  C6: when the query returns the rows \<open>ms\<close>, the collector returns a map and no error,
  and the tuples of the map are exactly the tuples of the rows.  The tuple of a row has
  the user as its subject and the team as its object, carries no condition, and is stored
  under its object and its string form.  Its relation is the team-admin relation if and
  only if the permission level of the row is 4, and the team-member relation for every
  other level.
\<close>

theorem teamMembershipCollector_tuples:
  "\<exists>tuples. teamMembershipCollector cstr (Inr ms) orgId = (Some tuples, None) \<and>
     (\<forall>obj key t. lookup2 tuples obj key = Some t \<longleftrightarrow>
        (\<exists>m \<in> set ms.
           User t = NewTupleEntry TypeUser (m_UserUID m) [] \<and>
           Object t = NewTupleEntry TypeTeam (m_TeamUID m) [] \<and>
           (Relation t = RelationTeamAdmin \<longleftrightarrow> m_Permission m = 4) \<and>
           (Relation t = RelationTeamMember \<longleftrightarrow> m_Permission m \<noteq> 4) \<and>
           Condition t = None \<and>
           obj = Object t \<and> key = TupleKey_String cstr t))"
proof -
  have fields: "t = membershipTuple m \<longleftrightarrow>
      User t = NewTupleEntry TypeUser (m_UserUID m) [] \<and>
      Object t = NewTupleEntry TypeTeam (m_TeamUID m) [] \<and>
      (Relation t = RelationTeamAdmin \<longleftrightarrow> m_Permission m = 4) \<and>
      (Relation t = RelationTeamMember \<longleftrightarrow> m_Permission m \<noteq> 4) \<and>
      Condition t = None" for t :: TupleKey and m
    by (cases t) (auto simp: membershipTuple_def Let_def RelationTeamAdmin_def
        RelationTeamMember_def)
  have "lookup2 (teamMembershipLoop cstr Map.empty ms) obj key = Some t \<longleftrightarrow>
          t \<in> membershipTuple ` ({} \<union> set ms) \<and> obj = Object t \<and>
          key = TupleKey_String cstr t" for obj key t
    by (rule teamMembershipLoop_lookup2) (simp add: lookup2_empty)
  then show ?thesis
    unfolding teamMembershipCollector_def
    by (simp add: image_iff fields) blast
qed

theorem teamMembershipCollector_tuples_witness:
  "\<exists>tuples.
     teamMembershipCollector (\<lambda>c. [])
       (Inr [\<lparr>m_TeamUID = ''t1'', m_UserUID = ''u1'', m_Permission = 4\<rparr>,
             \<lparr>m_TeamUID = ''t1'', m_UserUID = ''u2'', m_Permission = 0\<rparr>]) 1 =
       (Some tuples, None) \<and>
     lookup2 tuples ''team:t1'' ''team:t1#team-admin@user:u1'' =
       Some \<lparr>User = ''user:u1'', Relation = ''team-admin'', Object = ''team:t1'',
             Condition = None\<rparr> \<and>
     lookup2 tuples ''team:t1'' ''team:t1#team-member@user:u2'' =
       Some \<lparr>User = ''user:u2'', Relation = ''team-member'', Object = ''team:t1'',
             Condition = None\<rparr> \<and>
     lookup2 tuples ''team:t1'' ''team:t1#team-admin@user:u2'' = None"
proof -
  let ?ms = "[\<lparr>m_TeamUID = ''t1'', m_UserUID = ''u1'', m_Permission = 4\<rparr>,
              \<lparr>m_TeamUID = ''t1'', m_UserUID = ''u2'', m_Permission = 0\<rparr>]"
  obtain tuples where
    res: "teamMembershipCollector (\<lambda>c. []) (Inr ?ms) 1 = (Some tuples, None)" and
    sem: "\<And>obj key t. lookup2 tuples obj key = Some t \<longleftrightarrow>
        (\<exists>m \<in> set ?ms.
           User t = NewTupleEntry TypeUser (m_UserUID m) [] \<and>
           Object t = NewTupleEntry TypeTeam (m_TeamUID m) [] \<and>
           (Relation t = RelationTeamAdmin \<longleftrightarrow> m_Permission m = 4) \<and>
           (Relation t = RelationTeamMember \<longleftrightarrow> m_Permission m \<noteq> 4) \<and>
           Condition t = None \<and>
           obj = Object t \<and> key = TupleKey_String (\<lambda>c. []) t)"
    using teamMembershipCollector_tuples [of "\<lambda>c. []" ?ms 1] by blast
  have a: "lookup2 tuples ''team:t1'' ''team:t1#team-admin@user:u1'' =
       Some \<lparr>User = ''user:u1'', Relation = ''team-admin'', Object = ''team:t1'',
             Condition = None\<rparr>"
    by (simp add: sem NewTupleEntry_def TypeUser_def TypeTeam_def RelationTeamAdmin_def
        RelationTeamMember_def TupleKey_String_def)
  have b: "lookup2 tuples ''team:t1'' ''team:t1#team-member@user:u2'' =
       Some \<lparr>User = ''user:u2'', Relation = ''team-member'', Object = ''team:t1'',
             Condition = None\<rparr>"
    by (simp add: sem NewTupleEntry_def TypeUser_def TypeTeam_def RelationTeamAdmin_def
        RelationTeamMember_def TupleKey_String_def)
  have c: "lookup2 tuples ''team:t1'' ''team:t1#team-admin@user:u2'' \<noteq> Some t" for t
    by (auto simp: sem NewTupleEntry_def TypeUser_def TypeTeam_def RelationTeamAdmin_def
        RelationTeamMember_def TupleKey_String_def)
  from c have "lookup2 tuples ''team:t1'' ''team:t1#team-admin@user:u2'' = None"
    by (cases "lookup2 tuples ''team:t1'' ''team:t1#team-admin@user:u2''") auto
  with res a b show ?thesis by blast
qed

subsection \<open>Folder tree\<close>

lemma folderTuple_same_key:
  assumes "Object (folderTuple f) = Object (folderTuple f')"
    and "TupleKey_String cstr (folderTuple f) = TupleKey_String cstr (folderTuple f')"
  shows "folderTuple f = folderTuple f'"
  using assms
  by (simp add: folderTuple_def TupleKey_String_def)

lemma folderTreeLoop_lookup2:
  assumes "\<And>obj key t. lookup2 tuples obj key = Some t \<longleftrightarrow>
             t \<in> folderTuple ` S \<and> obj = Object t \<and> key = TupleKey_String cstr t"
  shows "lookup2 (folderTreeLoop cstr tuples fs) obj key = Some t \<longleftrightarrow>
           t \<in> folderTuple ` (S \<union> {f \<in> set fs. f_ParentUID f \<noteq> []}) \<and>
           obj = Object t \<and> key = TupleKey_String cstr t"
  using assms
proof (induction fs arbitrary: tuples S)
  case Nil
  then show ?case by simp
next
  case (Cons f fs)
  show ?case
  proof (cases "f_ParentUID f = []")
    case True
    have "{g \<in> set (f # fs). f_ParentUID g \<noteq> []} = {g \<in> set fs. f_ParentUID g \<noteq> []}"
      using True by auto
    then show ?thesis
      using Cons.IH [of tuples S] Cons.prems True by simp
  next
    case False
    let ?tf = "folderTuple f"
    let ?tuples2 = "storeTuple (initObject tuples (Object ?tf)) (Object ?tf)
                      (TupleKey_String cstr ?tf) ?tf"
    have step: "lookup2 ?tuples2 obj' key' = Some t' \<longleftrightarrow>
                  t' \<in> folderTuple ` (insert f S) \<and> obj' = Object t' \<and>
                  key' = TupleKey_String cstr t'" for obj' key' t'
    proof (cases "obj' = Object ?tf \<and> key' = TupleKey_String cstr ?tf")
      case True
      then show ?thesis
        using folderTuple_same_key [of _ f cstr]
        by (auto simp: lookup2_storeTuple_initObject)
    next
      case False
      then show ?thesis
        using Cons.prems [of obj' key' t']
        by (auto simp: lookup2_storeTuple_initObject)
    qed
    have sets: "insert f S \<union> {g \<in> set fs. f_ParentUID g \<noteq> []} =
                S \<union> {g \<in> set (f # fs). f_ParentUID g \<noteq> []}"
      using False by auto
    have "lookup2 (folderTreeLoop cstr ?tuples2 fs) obj key = Some t \<longleftrightarrow>
            t \<in> folderTuple ` (insert f S \<union> {g \<in> set fs. f_ParentUID g \<noteq> []}) \<and>
            obj = Object t \<and> key = TupleKey_String cstr t"
      by (rule Cons.IH) (rule step)
    then show ?thesis
      using False by (simp only: sets folderTreeLoop.simps Let_def if_False)
  qed
qed

text \<open>
  C7: when the query returns the rows \<open>fs\<close>, the collector returns a map and no error,
  and the tuples of the map are exactly the tuples of the rows with a non-empty parent
  uid: object the child folder, relation \<^verbatim>\<open>parent\<close>, subject the parent folder, stored
  under its object and its string form.  A row with an empty parent uid contributes no
  tuple.
\<close>

theorem folderTreeCollector_tuples:
  "\<exists>tuples. folderTreeCollector cstr (Inr fs) orgId = (Some tuples, None) \<and>
     (\<forall>obj key t. lookup2 tuples obj key = Some t \<longleftrightarrow>
        (\<exists>f \<in> set fs.
           f_ParentUID f \<noteq> [] \<and>
           t = \<lparr>User = NewTupleEntry TypeFolder (f_ParentUID f) [],
                Relation = ''parent'',
                Object = NewTupleEntry TypeFolder (f_FolderUID f) [],
                Condition = None\<rparr> \<and>
           obj = Object t \<and> key = TupleKey_String cstr t))"
proof -
  have "lookup2 (folderTreeLoop cstr Map.empty fs) obj key = Some t \<longleftrightarrow>
          t \<in> folderTuple ` ({} \<union> {f \<in> set fs. f_ParentUID f \<noteq> []}) \<and> obj = Object t \<and>
          key = TupleKey_String cstr t" for obj key t
    by (rule folderTreeLoop_lookup2) (simp add: lookup2_empty)
  then show ?thesis
    unfolding folderTreeCollector_def
    by (simp add: image_iff folderTuple_def RelationParent_def) blast
qed

theorem folderTreeCollector_tuples_witness:
  "\<exists>tuples.
     folderTreeCollector (\<lambda>c. [])
       (Inr [\<lparr>f_OrgID = 1, f_FolderUID = ''f1'', f_ParentUID = []\<rparr>,
             \<lparr>f_OrgID = 1, f_FolderUID = ''f2'', f_ParentUID = ''f1''\<rparr>]) 1 =
       (Some tuples, None) \<and>
     (\<forall>obj key t. lookup2 tuples obj key = Some t \<longleftrightarrow>
        t = \<lparr>User = ''folder:f1'', Relation = ''parent'', Object = ''folder:f2'',
             Condition = None\<rparr> \<and>
        obj = ''folder:f2'' \<and> key = ''folder:f2#parent@folder:f1'')"
  using folderTreeCollector_tuples [of "\<lambda>c. []"
      "[\<lparr>f_OrgID = 1, f_FolderUID = ''f1'', f_ParentUID = []\<rparr>,
        \<lparr>f_OrgID = 1, f_FolderUID = ''f2'', f_ParentUID = ''f1''\<rparr>]" 1]
  by (auto simp: NewTupleEntry_def TypeFolder_def TupleKey_String_def)

subsection \<open>Managed permissions\<close>









section \<open>Properties of the mirror collector\<close>

subsection \<open>Mirror collector: pagination\<close>

lemma ToOpenFGATuples_id: "ToOpenFGATuples ts = ts"
  by (induction ts) (simp_all add: ToOpenFGATuples_def)

lemma listLoop_done:
  "listLoop read namespace object relation [] acc w = Some ((acc, None), w)"
  by (subst listLoop.simps) (simp add: ToOpenFGATuples_id)

lemma listLoop_error:
  assumes "c \<noteq> []"
    and "read s (listRequest namespace object relation) = (Inl err, s')"
  shows "listLoop read namespace object relation c acc (s, tr) =
           Some (([], Some err), (s', tr @ [(listRequest namespace object relation, Inl err)]))"
  using assms by (subst listLoop.simps) (simp add: clientRead_def)

lemma listLoop_page:
  assumes "c \<noteq> []"
    and "read s (listRequest namespace object relation) = (Inr res, s')"
  shows "listLoop read namespace object relation c acc (s, tr) =
           listLoop read namespace object relation (rs_ContinuationToken res)
             (acc @ rs_Tuples res)
             (s', tr @ [(listRequest namespace object relation, Inr res)])"
  using assms by (subst listLoop.simps) (simp add: clientRead_def)

lemma listRelation_error:
  assumes "read s (listRequest namespace object relation) = (Inl err, s')"
  shows "listRelation read namespace object relation (s, tr) =
           Some (([], Some err), (s', tr @ [(listRequest namespace object relation, Inl err)]))"
  using assms by (simp add: listRelation_def clientRead_def)

lemma listRelation_page:
  assumes "read s (listRequest namespace object relation) = (Inr res, s')"
  shows "listRelation read namespace object relation (s, tr) =
           listLoop read namespace object relation (rs_ContinuationToken res) (rs_Tuples res)
             (s', tr @ [(listRequest namespace object relation, Inr res)])"
  using assms by (simp add: listRelation_def clientRead_def)

subsection \<open>Mirror collector: filing tuples\<close>

lemma insertTuples_Cons:
  "insertTuples isFR cstr out (t # ts) =
     insertTuples isFR cstr (out(canonicalKey isFR cstr (Key t) \<mapsto> Key t)) ts"
  by (simp add: tupleStringWithoutCondition_eq canonicalKey_def)

lemma insertTuples_append:
  "insertTuples isFR cstr out (ts @ us) =
     insertTuples isFR cstr (insertTuples isFR cstr out ts) us"
proof (induction ts arbitrary: out)
  case Nil
  show ?case by simp
next
  case (Cons t ts)
  show ?case
    by (simp only: append_Cons insertTuples_Cons Cons.IH)
qed

lemma find_snoc:
  "find P (xs @ [x]) =
     (case find P xs of None \<Rightarrow> (if P x then Some x else None) | Some y \<Rightarrow> Some y)"
  by (induction xs) simp_all

lemma insertTuples_lookup:
  "insertTuples isFR cstr out ts key =
     (case find (\<lambda>t. canonicalKey isFR cstr (Key t) = key) (rev ts) of
        None \<Rightarrow> out key
      | Some t \<Rightarrow> Some (Key t))"
proof (induction ts arbitrary: out)
  case Nil
  show ?case by simp
next
  case (Cons t ts)
  show ?case
    by (simp only: insertTuples_Cons Cons.IH rev.simps find_snoc)
      (simp split: option.splits)
qed

lemma insertTuples_empty:
  "insertTuples isFR cstr Map.empty ts = lastWriteWins isFR cstr ts"
  by (rule ext) (simp add: insertTuples_lookup lastWriteWins_def split: option.splits)

lemma zanzanaLoop_relationsTuples:
  "zanzanaLoop isFR cstr read object namespace rs out w =
     map_option
       (\<lambda>r. case r of
          ((ts, None), w') \<Rightarrow> ((Some (insertTuples isFR cstr out ts), None), w')
        | ((ts, Some err), w') \<Rightarrow> ((None, Some err), w'))
       (relationsTuples read namespace object rs w)"
proof (induction rs arbitrary: out w)
  case Nil
  show ?case by simp
next
  case (Cons r rs)
  show ?case
    by (simp add: Cons.IH insertTuples_append split: option.splits prod.splits)
qed

text \<open>
  C5: the collector returns what the spec's words give for the tuples of all requested
  relations, taken one relation after the other: one flat map in which a key holds the
  key of the last tuple with that canonical key, with the condition that tuple came with.
  The canonical key of a folder-resource tuple is the string form of the tuple without its
  condition; the canonical key of every other tuple is its full string form.  A read error
  gives no map, and a run that does not return gives no result on either side.
\<close>

theorem zanzanaCollector_last_write_wins:
  "zanzanaCollector isFR cstr relations read object namespace s =
     map_option (mirrorResult isFR cstr)
       (relationsTuples read namespace object relations (s, []))"
proof -
  have "(\<lambda>r. case r of
          ((ts, None), w') \<Rightarrow> ((Some (insertTuples isFR cstr Map.empty ts), None), w')
        | ((ts, Some err), w') \<Rightarrow> ((None, Some err), w')) =
        (mirrorResult isFR cstr :: (Tuple list \<times> error option) \<times> 'a world \<Rightarrow> _)"
    by (rule ext) (simp add: mirrorResult_def insertTuples_empty split: prod.splits option.splits)
  then show ?thesis
    by (simp add: zanzanaCollector_def zanzanaLoop_relationsTuples)
qed

theorem zanzanaCollector_last_write_wins_witness:
  "\<exists>out w.
     zanzanaCollector (\<lambda>k. Relation k = ''resource_get'') (\<lambda>c. []) [''resource_get'', ''view'']
       (scriptedClient
          [Inr \<lparr>rs_Tuples =
                  [\<lparr>Key = \<lparr>User = ''user:u1'', Relation = ''resource_get'',
                            Object = ''folder:f1'', Condition = Some {''g1''}\<rparr>\<rparr>,
                   \<lparr>Key = \<lparr>User = ''user:u1'', Relation = ''resource_get'',
                            Object = ''folder:f1'', Condition = Some {''g2''}\<rparr>\<rparr>],
                rs_ContinuationToken = []\<rparr>,
           Inr \<lparr>rs_Tuples =
                  [\<lparr>Key = \<lparr>User = ''user:u1'', Relation = ''view'',
                            Object = ''folder:f1'', Condition = None\<rparr>\<rparr>],
                rs_ContinuationToken = []\<rparr>])
       ''folder:f1'' ''ns'' 0 = Some ((Some out, None), w) \<and>
     out ''folder:f1#resource_get@user:u1'' =
       Some \<lparr>User = ''user:u1'', Relation = ''resource_get'', Object = ''folder:f1'',
             Condition = Some {''g2''}\<rparr> \<and>
     out ''folder:f1#view@user:u1'' =
       Some \<lparr>User = ''user:u1'', Relation = ''view'', Object = ''folder:f1'',
             Condition = None\<rparr> \<and>
     out ''folder:f1#resource_get@user:u1,'' = None"
  by (simp add: zanzanaCollector_last_write_wins listRelation_def clientRead_def
      scriptedClient_def listLoop_done mirrorResult_def lastWriteWins_def canonicalKey_def
      TupleKey_String_def)

subsection \<open>Mirror collector: two pages\<close>

text \<open>
  C2: when the first read for the namespace, object and relation answers with the page
  \<open>T1\<close> and a non-empty continuation token and the second read answers with the page
  \<open>T2\<close> and the empty token, the list of the relation is \<open>T1\<close> followed by \<open>T2\<close>
  after exactly these two calls, and the collector for that one relation returns the map
  filed from both pages: every tuple of \<open>T1\<close> and of \<open>T2\<close> has its canonical key in
  the map.
\<close>

theorem zanzanaCollector_two_pages:
  assumes "read s0 (listRequest namespace object r) =
             (Inr \<lparr>rs_Tuples = T1, rs_ContinuationToken = c\<rparr>, s1)"
    and "c \<noteq> []"
    and "read s1 (listRequest namespace object r) =
             (Inr \<lparr>rs_Tuples = T2, rs_ContinuationToken = []\<rparr>, s2)"
  shows "listRelation read namespace object r (s0, []) =
           Some ((T1 @ T2, None),
                 (s2, [(listRequest namespace object r,
                          Inr \<lparr>rs_Tuples = T1, rs_ContinuationToken = c\<rparr>),
                       (listRequest namespace object r,
                          Inr \<lparr>rs_Tuples = T2, rs_ContinuationToken = []\<rparr>)])) \<and>
         (\<exists>out w. zanzanaCollector isFR cstr [r] read object namespace s0 =
                     Some ((Some out, None), w) \<and>
                   out = insertTuples isFR cstr Map.empty (T1 @ T2) \<and>
                   canonicalKey isFR cstr ` Key ` (set T1 \<union> set T2) \<subseteq> dom out)"
proof -
  have l: "listRelation read namespace object r (s0, []) =
           Some ((T1 @ T2, None),
                 (s2, [(listRequest namespace object r,
                          Inr \<lparr>rs_Tuples = T1, rs_ContinuationToken = c\<rparr>),
                       (listRequest namespace object r,
                          Inr \<lparr>rs_Tuples = T2, rs_ContinuationToken = []\<rparr>)]))"
    using assms
    by (simp add: listRelation_page listLoop_page listLoop_done)
  have d: "canonicalKey isFR cstr ` Key ` set ts \<subseteq> dom (insertTuples isFR cstr out ts)"
    for out ts
  proof
    fix key assume "key \<in> canonicalKey isFR cstr ` Key ` set ts"
    then obtain t where t: "t \<in> set ts" "canonicalKey isFR cstr (Key t) = key" by auto
    then have "find (\<lambda>t. canonicalKey isFR cstr (Key t) = key) (rev ts) \<noteq> None"
      by (auto simp: find_None_iff)
    then show "key \<in> dom (insertTuples isFR cstr out ts)"
      by (auto simp: insertTuples_lookup)
  qed
  show ?thesis
    using l d [of "T1 @ T2" Map.empty]
    by (simp add: zanzanaCollector_def)
qed

theorem zanzanaCollector_two_pages_witness:
  "\<exists>out w.
     zanzanaCollector (\<lambda>k. False) (\<lambda>c. []) [''view'']
       (scriptedClient
          [Inr \<lparr>rs_Tuples = [\<lparr>Key = \<lparr>User = ''user:u1'', Relation = ''view'',
                                      Object = ''folder:f1'', Condition = None\<rparr>\<rparr>],
                rs_ContinuationToken = ''next''\<rparr>,
           Inr \<lparr>rs_Tuples = [\<lparr>Key = \<lparr>User = ''user:u2'', Relation = ''view'',
                                      Object = ''folder:f1'', Condition = None\<rparr>\<rparr>],
                rs_ContinuationToken = []\<rparr>])
       ''folder:f1'' ''ns'' 0 = Some ((Some out, None), w) \<and>
     out ''folder:f1#view@user:u1'' =
       Some \<lparr>User = ''user:u1'', Relation = ''view'', Object = ''folder:f1'',
             Condition = None\<rparr> \<and>
     out ''folder:f1#view@user:u2'' =
       Some \<lparr>User = ''user:u2'', Relation = ''view'', Object = ''folder:f1'',
             Condition = None\<rparr>"
proof -
  let ?p1 = "\<lparr>rs_Tuples = [\<lparr>Key = \<lparr>User = ''user:u1'', Relation = ''view'',
                                      Object = ''folder:f1'', Condition = None\<rparr>\<rparr>],
                rs_ContinuationToken = ''next''\<rparr>"
  let ?p2 = "\<lparr>rs_Tuples = [\<lparr>Key = \<lparr>User = ''user:u2'', Relation = ''view'',
                                      Object = ''folder:f1'', Condition = None\<rparr>\<rparr>],
                rs_ContinuationToken = []\<rparr>"
  let ?read = "scriptedClient [Inr ?p1, Inr ?p2]"
  let ?req = "listRequest ''ns'' ''folder:f1'' ''view''"
  have r1: "?read 0 ?req = (Inr ?p1, Suc 0)"
    by (simp add: scriptedClient_def)
  have r2: "?read (Suc 0) ?req = (Inr ?p2, Suc (Suc 0))"
    by (simp add: scriptedClient_def)
  have c: "''next'' \<noteq> []" by simp
  from zanzanaCollector_two_pages [where read = ?read and ?s0.0 = 0 and ?s1.0 = "Suc 0"
      and ?s2.0 = "Suc (Suc 0)" and isFR = "\<lambda>k. False" and cstr = "\<lambda>c. []", OF r1 c r2]
  show ?thesis
    by (auto simp: TupleKey_String_def)
qed

subsection \<open>Mirror collector: termination of the pagination\<close>

lemma nthResponse_0: "nthResponse read req s 0 = fst (read s req)"
  by (simp add: nthResponse_def)

lemma nthResponse_Suc:
  "nthResponse read req s (Suc n) = nthResponse read req (snd (read s req)) n"
  by (simp add: nthResponse_def)

lemma morePages_Suc:
  "morePages read req s (Suc k) = morePages read req (snd (read s req)) k"
  by (simp add: morePages_def nthResponse_Suc)

lemma listLoop_run:
  assumes "\<forall>k<m. morePages read (listRequest namespace object relation) s k"
    and "\<not> morePages read (listRequest namespace object relation) s m"
    and "c \<noteq> []"
  shows "\<exists>tr'. listLoop read namespace object relation c acc (s, tr) =
           Some ((case nthResponse read (listRequest namespace object relation) s m of
                    Inl err \<Rightarrow> ([], Some err)
                  | Inr res \<Rightarrow>
                      (acc @ pages read (listRequest namespace object relation) s (Suc m), None)),
                 (readsAfter read (listRequest namespace object relation) s (Suc m), tr'))"
  using assms
proof (induction m arbitrary: s c acc tr)
  case 0
  let ?req = "listRequest namespace object relation"
  obtain a s' where rd: "read s ?req = (a, s')" by (cases "read s ?req")
  show ?case
  proof (cases a)
    case (Inl err)
    with rd "0.prems" show ?thesis
      by (simp add: listLoop_error nthResponse_0)
  next
    case (Inr res)
    with rd "0.prems" have "rs_ContinuationToken res = []"
      by (simp add: morePages_def nthResponse_0)
    with rd Inr "0.prems" show ?thesis
      by (simp add: listLoop_page listLoop_done nthResponse_0)
  qed
next
  case (Suc m)
  let ?req = "listRequest namespace object relation"
  obtain a s' where rd: "read s ?req = (a, s')" by (cases "read s ?req")
  from Suc.prems have more0: "morePages read ?req s 0" by simp
  with rd obtain res where a: "a = Inr res" and tok: "rs_ContinuationToken res \<noteq> []"
    by (cases a) (auto simp: morePages_def nthResponse_0)
  have more: "\<forall>k<m. morePages read ?req s' k"
  proof (intro allI impI)
    fix k assume "k < m"
    then have "morePages read ?req s (Suc k)" using Suc.prems(1) by simp
    then show "morePages read ?req s' k" using rd by (simp add: morePages_Suc)
  qed
  have stop: "\<not> morePages read ?req s' m"
    using Suc.prems(2) rd by (simp add: morePages_Suc)
  from Suc.IH [OF more stop tok, of "acc @ rs_Tuples res" "tr @ [(?req, Inr res)]"]
  obtain tr' where
    "listLoop read namespace object relation (rs_ContinuationToken res) (acc @ rs_Tuples res)
       (s', tr @ [(?req, Inr res)]) =
     Some ((case nthResponse read ?req s' m of
              Inl err \<Rightarrow> ([], Some err)
            | Inr r \<Rightarrow> ((acc @ rs_Tuples res) @ pages read ?req s' (Suc m), None)),
           (readsAfter read ?req s' (Suc m), tr'))"
    by blast
  with rd a Suc.prems(3) show ?case
    by (simp add: listLoop_page nthResponse_Suc split: sum.splits)
qed

lemma listRelation_run:
  assumes "\<forall>k<m. morePages read (listRequest namespace object relation) s k"
    and "\<not> morePages read (listRequest namespace object relation) s m"
  shows "\<exists>tr'. listRelation read namespace object relation (s, tr) =
           Some ((case nthResponse read (listRequest namespace object relation) s m of
                    Inl err \<Rightarrow> ([], Some err)
                  | Inr res \<Rightarrow>
                      (pages read (listRequest namespace object relation) s (Suc m), None)),
                 (readsAfter read (listRequest namespace object relation) s (Suc m), tr'))"
proof (cases m)
  case 0
  let ?req = "listRequest namespace object relation"
  obtain a s' where rd: "read s ?req = (a, s')" by (cases "read s ?req")
  show ?thesis
  proof (cases a)
    case (Inl err)
    with rd 0 show ?thesis
      by (simp add: listRelation_error nthResponse_0)
  next
    case (Inr res)
    with rd 0 assms have "rs_ContinuationToken res = []"
      by (simp add: morePages_def nthResponse_0)
    with rd Inr 0 show ?thesis
      by (simp add: listRelation_page listLoop_done nthResponse_0)
  qed
next
  case (Suc m')
  let ?req = "listRequest namespace object relation"
  obtain a s' where rd: "read s ?req = (a, s')" by (cases "read s ?req")
  from assms Suc have more0: "morePages read ?req s 0" by simp
  with rd obtain res where a: "a = Inr res" and tok: "rs_ContinuationToken res \<noteq> []"
    by (cases a) (auto simp: morePages_def nthResponse_0)
  have more: "\<forall>k<m'. morePages read ?req s' k"
  proof (intro allI impI)
    fix k assume "k < m'"
    then have "morePages read ?req s (Suc k)" using assms(1) Suc by simp
    then show "morePages read ?req s' k" using rd by (simp add: morePages_Suc)
  qed
  have stop: "\<not> morePages read ?req s' m'"
    using assms(2) rd Suc by (simp add: morePages_Suc)
  from listLoop_run [OF more stop tok, of "rs_Tuples res" "tr @ [(?req, Inr res)]"]
  obtain tr' where
    "listLoop read namespace object relation (rs_ContinuationToken res) (rs_Tuples res)
       (s', tr @ [(?req, Inr res)]) =
     Some ((case nthResponse read ?req s' m' of
              Inl err \<Rightarrow> ([], Some err)
            | Inr r \<Rightarrow> (rs_Tuples res @ pages read ?req s' (Suc m'), None)),
           (readsAfter read ?req s' (Suc m'), tr'))"
    by blast
  with rd a Suc show ?thesis
    by (simp add: listRelation_page nthResponse_Suc split: sum.splits)
qed

text \<open>
  C4: when the client's answers to repeated reads with the request of the relation reach
  a page with the empty continuation token at call number \<open>n\<close>, the list of the
  relation returns.  It returns after the first call \<open>m\<close>, at most \<open>n\<close>, whose answer
  is not a page with a non-empty token; when that answer is a page, the result is the
  list of the tuples of the pages of the calls up to \<open>m\<close>, in their order, and no error,
  and when it is an error, the result is that error.
\<close>

theorem listRelation_terminates:
  assumes "nthResponse read (listRequest namespace object relation) s n = Inr res"
    and "rs_ContinuationToken res = []"
  shows "\<exists>m\<le>n. \<exists>tr'.
           (\<forall>k<m. morePages read (listRequest namespace object relation) s k) \<and>
           \<not> morePages read (listRequest namespace object relation) s m \<and>
           listRelation read namespace object relation (s, tr) =
             Some ((case nthResponse read (listRequest namespace object relation) s m of
                      Inl err \<Rightarrow> ([], Some err)
                    | Inr res' \<Rightarrow>
                        (pages read (listRequest namespace object relation) s (Suc m), None)),
                   (readsAfter read (listRequest namespace object relation) s (Suc m), tr'))"
proof -
  let ?req = "listRequest namespace object relation"
  let ?stop = "\<lambda>m. \<not> morePages read ?req s m"
  define m where "m = (LEAST m. ?stop m)"
  from assms have n: "?stop n" by (simp add: morePages_def)
  then have stop: "?stop m" unfolding m_def by (rule LeastI)
  from n have le: "m \<le> n" unfolding m_def by (rule Least_le)
  have more: "\<forall>k<m. morePages read ?req s k"
    using not_less_Least [of _ ?stop] unfolding m_def by blast
  from listRelation_run [OF more stop, of tr] le more stop show ?thesis by blast
qed

theorem listRelation_terminates_witness:
  "nthResponse
     (scriptedClient
        [Inr \<lparr>rs_Tuples = [\<lparr>Key = \<lparr>User = ''user:u1'', Relation = ''view'',
                                    Object = ''folder:f1'', Condition = None\<rparr>\<rparr>],
              rs_ContinuationToken = ''next''\<rparr>,
         Inr \<lparr>rs_Tuples = [\<lparr>Key = \<lparr>User = ''user:u2'', Relation = ''view'',
                                    Object = ''folder:f1'', Condition = None\<rparr>\<rparr>],
              rs_ContinuationToken = ''next''\<rparr>,
         Inr \<lparr>rs_Tuples = [\<lparr>Key = \<lparr>User = ''user:u3'', Relation = ''view'',
                                    Object = ''folder:f1'', Condition = None\<rparr>\<rparr>],
              rs_ContinuationToken = []\<rparr>])
     (listRequest ''ns'' ''folder:f1'' ''view'') 0 (Suc (Suc 0)) =
     Inr \<lparr>rs_Tuples = [\<lparr>Key = \<lparr>User = ''user:u3'', Relation = ''view'',
                                Object = ''folder:f1'', Condition = None\<rparr>\<rparr>],
          rs_ContinuationToken = []\<rparr> \<and>
   (\<exists>tr'.
      listRelation
        (scriptedClient
           [Inr \<lparr>rs_Tuples = [\<lparr>Key = \<lparr>User = ''user:u1'', Relation = ''view'',
                                       Object = ''folder:f1'', Condition = None\<rparr>\<rparr>],
                 rs_ContinuationToken = ''next''\<rparr>,
            Inr \<lparr>rs_Tuples = [\<lparr>Key = \<lparr>User = ''user:u2'', Relation = ''view'',
                                       Object = ''folder:f1'', Condition = None\<rparr>\<rparr>],
                 rs_ContinuationToken = ''next''\<rparr>,
            Inr \<lparr>rs_Tuples = [\<lparr>Key = \<lparr>User = ''user:u3'', Relation = ''view'',
                                       Object = ''folder:f1'', Condition = None\<rparr>\<rparr>],
                 rs_ContinuationToken = []\<rparr>])
        ''ns'' ''folder:f1'' ''view'' (0, []) =
      Some (([\<lparr>Key = \<lparr>User = ''user:u1'', Relation = ''view'', Object = ''folder:f1'',
                       Condition = None\<rparr>\<rparr>,
              \<lparr>Key = \<lparr>User = ''user:u2'', Relation = ''view'', Object = ''folder:f1'',
                       Condition = None\<rparr>\<rparr>,
              \<lparr>Key = \<lparr>User = ''user:u3'', Relation = ''view'', Object = ''folder:f1'',
                       Condition = None\<rparr>\<rparr>], None),
            (Suc (Suc (Suc 0)), tr')))"
proof -
  let ?p1 = "\<lparr>rs_Tuples = [\<lparr>Key = \<lparr>User = ''user:u1'', Relation = ''view'',
                                    Object = ''folder:f1'', Condition = None\<rparr>\<rparr>],
              rs_ContinuationToken = ''next''\<rparr>"
  let ?p2 = "\<lparr>rs_Tuples = [\<lparr>Key = \<lparr>User = ''user:u2'', Relation = ''view'',
                                    Object = ''folder:f1'', Condition = None\<rparr>\<rparr>],
              rs_ContinuationToken = ''next''\<rparr>"
  let ?p3 = "\<lparr>rs_Tuples = [\<lparr>Key = \<lparr>User = ''user:u3'', Relation = ''view'',
                                    Object = ''folder:f1'', Condition = None\<rparr>\<rparr>],
              rs_ContinuationToken = []\<rparr>"
  let ?read = "scriptedClient [Inr ?p1, Inr ?p2, Inr ?p3]"
  let ?req = "listRequest ''ns'' ''folder:f1'' ''view''"
  have n0: "nthResponse ?read ?req 0 0 = Inr ?p1"
    by (simp add: nthResponse_def scriptedClient_def)
  have n1: "nthResponse ?read ?req 0 (Suc 0) = Inr ?p2"
    by (simp add: nthResponse_def scriptedClient_def)
  have n2: "nthResponse ?read ?req 0 (Suc (Suc 0)) = Inr ?p3"
    by (simp add: nthResponse_def scriptedClient_def)
  have tok: "rs_ContinuationToken ?p3 = []" by simp
  from listRelation_terminates [where read = ?read and s = 0 and tr = "[]", OF n2 tok]
  obtain m tr' where
    le: "m \<le> Suc (Suc 0)" and
    stop: "\<not> morePages ?read ?req 0 m" and
    ret: "listRelation ?read ''ns'' ''folder:f1'' ''view'' (0, []) =
            Some ((case nthResponse ?read ?req 0 m of
                     Inl err \<Rightarrow> ([], Some err)
                   | Inr res' \<Rightarrow> (pages ?read ?req 0 (Suc m), None)),
                  (readsAfter ?read ?req 0 (Suc m), tr'))"
    by blast
  have "morePages ?read ?req 0 0" "morePages ?read ?req 0 (Suc 0)"
    by (simp_all add: morePages_def n0 n1)
  with stop le have m: "m = Suc (Suc 0)"
    by (metis le_Suc_eq le_zero_eq)
  have pg: "pages ?read ?req 0 (Suc (Suc (Suc 0))) = rs_Tuples ?p1 @ rs_Tuples ?p2 @ rs_Tuples ?p3"
    by (simp add: scriptedClient_def)
  have st: "readsAfter ?read ?req 0 (Suc (Suc (Suc 0))) = Suc (Suc (Suc 0))"
    by (simp add: scriptedClient_def)
  from ret have "listRelation ?read ''ns'' ''folder:f1'' ''view'' (0, []) =
      Some ((rs_Tuples ?p1 @ rs_Tuples ?p2 @ rs_Tuples ?p3, None), (Suc (Suc (Suc 0)), tr'))"
    unfolding m n2 pg st by simp
  with n2 show ?thesis by simp
qed

subsection \<open>Mirror collector: errors\<close>

lemma callsFit_Nil: "callsFit [] None"
  by (simp add: callsFit_def)

lemma callsFit_error: "callsFit [(rq, Inl e)] (Some e)"
  by (simp add: callsFit_def)

lemma callsFit_page:
  assumes "callsFit calls err"
  shows "callsFit ((rq, Inr res) # calls) err"
proof (cases err)
  case None
  with assms show ?thesis by (simp add: callsFit_def answeredPage_def)
next
  case (Some e)
  with assms show ?thesis
    by (cases calls) (auto simp: callsFit_def answeredPage_def)
qed

lemma callsFit_append:
  assumes "list_all answeredPage pre" and "callsFit calls err"
  shows "callsFit (pre @ calls) err"
proof (cases err)
  case None
  with assms show ?thesis by (simp add: callsFit_def)
next
  case (Some e)
  with assms show ?thesis
    by (auto simp: callsFit_def butlast_append)
qed

lemma callsFit_failed:
  assumes "callsFit calls err" and "(rq, Inl e) \<in> set calls"
  shows "err = Some e"
proof (cases err)
  case None
  with assms show ?thesis
    by (auto simp: callsFit_def list_all_iff answeredPage_def)
next
  case (Some e')
  with assms(1) obtain pre x where c: "calls = pre @ [x]" and l: "snd x = Inl e'"
    and b: "list_all answeredPage pre"
    by (cases calls rule: rev_cases) (auto simp: callsFit_def)
  from assms(2) c b have "(rq, Inl e) = x"
    by (auto simp: list_all_iff answeredPage_def)
  with l Some show ?thesis by auto
qed

lemma listLoop_calls:
  assumes "listLoop read namespace object relation c acc w = Some y"
  shows "\<exists>new. snd (snd y) = snd w @ new \<and> callsFit new (snd (fst y)) \<and>
           (snd (fst y) \<noteq> None \<longrightarrow> fst (fst y) = [])"
proof -
  let ?P = "\<lambda>(read :: 's client) (namespace :: string) (object :: string)
      (relation :: string) (c :: string) (acc :: Tuple list) (w :: 's world)
      (y :: (Tuple list \<times> error option) \<times> 's world).
      \<exists>new. snd (snd y) = snd w @ new \<and> callsFit new (snd (fst y)) \<and>
           (snd (fst y) \<noteq> None \<longrightarrow> fst (fst y) = [])"
  show ?thesis
  proof (rule listLoop.raw_induct [where P = ?P, OF _ assms])
    fix loop :: "'s client \<Rightarrow> string \<Rightarrow> string \<Rightarrow> string \<Rightarrow> string \<Rightarrow> Tuple list \<Rightarrow> 's world \<Rightarrow>
        ((Tuple list \<times> error option) \<times> 's world) option"
      and read :: "'s client" and namespace object relation c :: string
      and acc :: "Tuple list" and w :: "'s world"
      and y :: "(Tuple list \<times> error option) \<times> 's world"
    assume IH: "\<And>read namespace object relation c acc w y.
        loop read namespace object relation c acc w = Some y \<Longrightarrow>
        ?P read namespace object relation c acc w y"
      and body: "(if c \<noteq> [] then
          (case clientRead read w (listRequest namespace object relation) of
             (Inl err, w') \<Rightarrow> Some (([], Some err), w')
           | (Inr res, w') \<Rightarrow>
               loop read namespace object relation (rs_ContinuationToken res)
                 (acc @ rs_Tuples res) w')
        else Some ((ToOpenFGATuples acc, None), w)) = Some y"
    let ?req = "listRequest namespace object relation"
    show "?P read namespace object relation c acc w y"
    proof (cases "c = []")
      case True
      with body show ?thesis by (auto simp: callsFit_Nil)
    next
      case False
      obtain a s' where rd: "read (fst w) ?req = (a, s')" by (cases "read (fst w) ?req")
      show ?thesis
      proof (cases a)
        case (Inl err)
        with rd False body show ?thesis
          by (auto simp: clientRead_def callsFit_error)
      next
        case (Inr res)
        with rd False body
        have "loop read namespace object relation (rs_ContinuationToken res)
                (acc @ rs_Tuples res) (s', snd w @ [(?req, Inr res)]) = Some y"
          by (simp add: clientRead_def)
        from IH [OF this] obtain new where
          new: "snd (snd y) = (snd w @ [(?req, Inr res)]) @ new"
            "callsFit new (snd (fst y))" "snd (fst y) \<noteq> None \<longrightarrow> fst (fst y) = []"
          by auto
        from new(2) have "callsFit ((?req, Inr res) # new) (snd (fst y))"
          by (rule callsFit_page)
        with new(1,3) show ?thesis by auto
      qed
    qed
  qed
qed

lemma listRelation_calls:
  assumes "listRelation read namespace object relation w = Some y"
  shows "\<exists>new. snd (snd y) = snd w @ new \<and> callsFit new (snd (fst y)) \<and>
           (snd (fst y) \<noteq> None \<longrightarrow> fst (fst y) = [])"
proof -
  let ?req = "listRequest namespace object relation"
  obtain a s' where rd: "read (fst w) ?req = (a, s')" by (cases "read (fst w) ?req")
  show ?thesis
  proof (cases a)
    case (Inl err)
    with rd assms show ?thesis
      by (auto simp: listRelation_def clientRead_def callsFit_error)
  next
    case (Inr res)
    with rd assms
    have "listLoop read namespace object relation (rs_ContinuationToken res)
            (rs_Tuples res) (s', snd w @ [(?req, Inr res)]) = Some y"
      by (simp add: listRelation_def clientRead_def)
    from listLoop_calls [OF this] obtain new where
      new: "snd (snd y) = (snd w @ [(?req, Inr res)]) @ new"
        "callsFit new (snd (fst y))" "snd (fst y) \<noteq> None \<longrightarrow> fst (fst y) = []"
      by auto
    from new(2) have "callsFit ((?req, Inr res) # new) (snd (fst y))"
      by (rule callsFit_page)
    with new(1,3) show ?thesis by auto
  qed
qed

lemma zanzanaLoop_calls:
  "zanzanaLoop isFR cstr read object namespace rs out w = Some y \<Longrightarrow>
     \<exists>new. snd (snd y) = snd w @ new \<and> callsFit new (snd (fst y)) \<and>
           (snd (fst y) \<noteq> None \<longleftrightarrow> fst (fst y) = None)"
proof (induction rs arbitrary: out w)
  case Nil
  then show ?case by (auto simp: callsFit_Nil)
next
  case (Cons r rs)
  from Cons.prems obtain ts e1 w1 where
    l: "listRelation read namespace object r w = Some ((ts, e1), w1)"
    by (auto split: option.splits)
  from listRelation_calls [OF l] obtain new1 where
    new1: "snd w1 = snd w @ new1" "callsFit new1 e1" by auto
  show ?case
  proof (cases e1)
    case (Some e)
    with l Cons.prems new1 show ?thesis by auto
  next
    case None
    with l Cons.prems
    have "zanzanaLoop isFR cstr read object namespace rs (insertTuples isFR cstr out ts) w1 =
            Some y"
      by simp
    from Cons.IH [OF this] obtain new2 where
      new2: "snd (snd y) = snd w1 @ new2" "callsFit new2 (snd (fst y))"
        "snd (fst y) \<noteq> None \<longleftrightarrow> fst (fst y) = None"
      by auto
    from new1(2) None have "list_all answeredPage new1" by (simp add: callsFit_def)
    then have "callsFit (new1 @ new2) (snd (fst y))"
      using new2(2) by (rule callsFit_append)
    with new1(1) new2(1,3) show ?thesis by auto
  qed
qed

text \<open>
  C9: a legacy collector whose query returns an error returns that error and the nil map.
  In the mirror collector a read that answers with an error ends the list of the relation
  at once with that error, be it the first read of the relation or a follow-up read, and
  an error of the list of a relation ends the collector at once with that error and the
  nil map, whatever was filed before.  Whenever the collector returns, it returns an error
  exactly when it returns the nil map, and a call among its calls that answered with an
  error is the error it returns.
\<close>

theorem collectors_return_error_and_nil:
  "teamMembershipCollector cstr (Inl e) orgId = (None, Some e) \<and>
   folderTreeCollector cstr (Inl e) orgId = (None, Some e) \<and>
   (store kind = Inl e \<longrightarrow>
      managedPermissionsCollector translate isFR cstr store kind orgId = (None, Some e)) \<and>
   (read s (listRequest namespace object r) = (Inl e, s1) \<longrightarrow>
      listRelation read namespace object r (s, tr) =
        Some (([], Some e), (s1, tr @ [(listRequest namespace object r, Inl e)]))) \<and>
   (c \<noteq> [] \<and> read s (listRequest namespace object r) = (Inl e, s1) \<longrightarrow>
      listLoop read namespace object r c acc (s, tr) =
        Some (([], Some e), (s1, tr @ [(listRequest namespace object r, Inl e)]))) \<and>
   (listRelation read namespace object r w = Some ((ts, Some e), w1) \<longrightarrow>
      zanzanaLoop isFR cstr read object namespace (r # rs) out0 w =
        Some ((None, Some e), w1)) \<and>
   (zanzanaCollector isFR cstr relations read object namespace s =
      Some ((out, err), (s', calls)) \<longrightarrow>
        (err \<noteq> None \<longleftrightarrow> out = None) \<and>
        (\<forall>rq e'. (rq, Inl e') \<in> set calls \<longrightarrow> out = None \<and> err = Some e'))"
proof -
  have legacy1: "teamMembershipCollector cstr (Inl e) orgId = (None, Some e)"
    by (simp add: teamMembershipCollector_def)
  have legacy2: "folderTreeCollector cstr (Inl e) orgId = (None, Some e)"
    by (simp add: folderTreeCollector_def)
  have legacy3: "managedPermissionsCollector translate isFR cstr store kind orgId =
      (None, Some e)" if "store kind = Inl e"
    using that by (simp add: managedPermissionsCollector_def)
  have first: "listRelation read namespace object r (s, tr) =
        Some (([], Some e), (s1, tr @ [(listRequest namespace object r, Inl e)]))"
    if "read s (listRequest namespace object r) = (Inl e, s1)"
    using that by (rule listRelation_error)
  have follow: "listLoop read namespace object r c acc (s, tr) =
        Some (([], Some e), (s1, tr @ [(listRequest namespace object r, Inl e)]))"
    if "c \<noteq> []" "read s (listRequest namespace object r) = (Inl e, s1)"
    using that by (rule listLoop_error)
  have outer: "zanzanaLoop isFR cstr read object namespace (r # rs) out0 w =
        Some ((None, Some e), w1)"
    if "listRelation read namespace object r w = Some ((ts, Some e), w1)"
    using that by simp
  have whole: "(err \<noteq> None \<longleftrightarrow> out = None) \<and>
        (\<forall>rq e'. (rq, Inl e') \<in> set calls \<longrightarrow> out = None \<and> err = Some e')"
    if ret: "zanzanaCollector isFR cstr relations read object namespace s =
      Some ((out, err), (s', calls))"
  proof -
    from ret have "zanzanaLoop isFR cstr read object namespace relations Map.empty (s, []) =
        Some ((out, err), (s', calls))"
      by (simp add: zanzanaCollector_def)
    from zanzanaLoop_calls [OF this]
    have fit: "callsFit calls err" and nil: "err \<noteq> None \<longleftrightarrow> out = None"
      by simp_all
    have "out = None \<and> err = Some e'" if "(rq, Inl e') \<in> set calls" for rq e'
      using callsFit_failed [OF fit that] nil by simp
    with nil show ?thesis by blast
  qed
  from legacy1 legacy2 legacy3 first follow outer whole show ?thesis by blast
qed

theorem collectors_return_error_and_nil_witness:
  "teamMembershipCollector (\<lambda>c. []) (Inl (Error ''database is locked'')) 1 =
     (None, Some (Error ''database is locked'')) \<and>
   zanzanaCollector (\<lambda>k. False) (\<lambda>c. []) [''view'']
     (scriptedClient
        [Inr \<lparr>rs_Tuples = [\<lparr>Key = \<lparr>User = ''user:u1'', Relation = ''view'',
                                    Object = ''folder:f1'', Condition = None\<rparr>\<rparr>],
              rs_ContinuationToken = ''next''\<rparr>,
         Inl (Error ''unavailable'')])
     ''folder:f1'' ''ns'' 0 =
     Some ((None, Some (Error ''unavailable'')),
           (Suc (Suc 0),
            [(listRequest ''ns'' ''folder:f1'' ''view'',
              Inr \<lparr>rs_Tuples = [\<lparr>Key = \<lparr>User = ''user:u1'', Relation = ''view'',
                                         Object = ''folder:f1'', Condition = None\<rparr>\<rparr>],
                   rs_ContinuationToken = ''next''\<rparr>),
             (listRequest ''ns'' ''folder:f1'' ''view'', Inl (Error ''unavailable''))]))"
proof -
  let ?p1 = "\<lparr>rs_Tuples = [\<lparr>Key = \<lparr>User = ''user:u1'', Relation = ''view'',
                                    Object = ''folder:f1'', Condition = None\<rparr>\<rparr>],
              rs_ContinuationToken = ''next''\<rparr>"
  let ?e = "Error ''unavailable''"
  let ?read = "scriptedClient [Inr ?p1, Inl ?e]"
  let ?req = "listRequest ''ns'' ''folder:f1'' ''view''"
  let ?w1 = "(Suc 0, [(?req, Inr ?p1)])"
  let ?w2 = "(Suc (Suc 0), [(?req, Inr ?p1), (?req, Inl ?e)])"
  note T = collectors_return_error_and_nil
    [where cstr = "\<lambda>c. []" and e = ?e and read = ?read and s = "Suc 0"
       and namespace = "''ns''" and object = "''folder:f1''" and r = "''view''"
       and ?s1.0 = "Suc (Suc 0)" and tr = "[(?req, Inr ?p1)]" and c = "''next''"
       and acc = "rs_Tuples ?p1" and w = "(0, [])" and ts = "[]" and ?w1.0 = ?w2
       and isFR = "\<lambda>k. False" and rs = "[]" and ?out0.0 = Map.empty]
  have r1: "?read 0 ?req = (Inr ?p1, Suc 0)"
    by (simp add: scriptedClient_def)
  have r2: "?read (Suc 0) ?req = (Inl ?e, Suc (Suc 0))"
    by (simp add: scriptedClient_def)
  from T r2 have loop: "listLoop ?read ''ns'' ''folder:f1'' ''view'' ''next'' (rs_Tuples ?p1) ?w1 =
      Some (([], Some ?e), ?w2)"
    by simp
  have "listRelation ?read ''ns'' ''folder:f1'' ''view'' (0, []) = Some (([], Some ?e), ?w2)"
    using listRelation_page [where read = ?read and s = 0 and tr = "[]", OF r1] loop by simp
  with T have "zanzanaLoop (\<lambda>k. False) (\<lambda>c. []) ?read ''folder:f1'' ''ns'' [''view'']
      Map.empty (0, []) = Some ((None, Some ?e), ?w2)"
    by blast
  then have z: "zanzanaCollector (\<lambda>k. False) (\<lambda>c. []) [''view''] ?read ''folder:f1'' ''ns'' 0 =
      Some ((None, Some ?e), ?w2)"
    by (simp add: zanzanaCollector_def)
  have "teamMembershipCollector (\<lambda>c. []) (Inl (Error ''database is locked'')) 1 =
     (None, Some (Error ''database is locked''))"
    by (rule collectors_return_error_and_nil [THEN conjunct1])
  with z show ?thesis by blast
qed

subsection \<open>Mirror collector: the continuation token\<close>

lemma listLoop_never_returns:
  fixes read :: "'s client"
  assumes more: "\<And>s. \<exists>res s'. read s (listRequest namespace object relation) = (Inr res, s') \<and>
                   rs_ContinuationToken res \<noteq> []"
    and ret: "listLoop read namespace object relation c acc w = Some y"
  shows "c = []"
proof -
  let ?P = "\<lambda>(read' :: 's client) (namespace' :: string) (object' :: string)
      (relation' :: string) (c :: string) (acc :: Tuple list) (w :: 's world)
      (y :: (Tuple list \<times> error option) \<times> 's world).
      read' = read \<and> listRequest namespace' object' relation' =
        listRequest namespace object relation \<longrightarrow> c = []"
  have "?P read namespace object relation c acc w y"
  proof (rule listLoop.raw_induct [where P = ?P, OF _ ret])
    fix loop :: "'s client \<Rightarrow> string \<Rightarrow> string \<Rightarrow> string \<Rightarrow> string \<Rightarrow> Tuple list \<Rightarrow> 's world \<Rightarrow>
        ((Tuple list \<times> error option) \<times> 's world) option"
      and read' :: "'s client" and namespace' object' relation' c :: string
      and acc :: "Tuple list" and w :: "'s world"
      and y :: "(Tuple list \<times> error option) \<times> 's world"
    assume IH: "\<And>read' namespace' object' relation' c acc w y.
        loop read' namespace' object' relation' c acc w = Some y \<Longrightarrow>
        ?P read' namespace' object' relation' c acc w y"
      and body: "(if c \<noteq> [] then
          (case clientRead read' w (listRequest namespace' object' relation') of
             (Inl err, w') \<Rightarrow> Some (([], Some err), w')
           | (Inr res, w') \<Rightarrow>
               loop read' namespace' object' relation' (rs_ContinuationToken res)
                 (acc @ rs_Tuples res) w')
        else Some ((ToOpenFGATuples acc, None), w)) = Some y"
    show "?P read' namespace' object' relation' c acc w y"
    proof (intro impI, elim conjE)
      assume eq: "read' = read"
        "listRequest namespace' object' relation' = listRequest namespace object relation"
      show "c = []"
      proof (rule ccontr)
        assume ne: "c \<noteq> []"
        from more [of "fst w"] obtain res s' where
          rd: "read (fst w) (listRequest namespace object relation) = (Inr res, s')"
          and tok: "rs_ContinuationToken res \<noteq> []"
          by blast
        from body ne rd eq
        have "loop read' namespace' object' relation' (rs_ContinuationToken res)
                (acc @ rs_Tuples res)
                (s', snd w @ [(listRequest namespace object relation, Inr res)]) = Some y"
          by (simp add: clientRead_def)
        from IH [OF this] eq tok show False by simp
      qed
    qed
  qed
  then show ?thesis by simp
qed

lemma listRelation_never_returns:
  assumes "\<And>s. \<exists>res s'. read s (listRequest namespace object relation) = (Inr res, s') \<and>
                   rs_ContinuationToken res \<noteq> []"
  shows "listRelation read namespace object relation w = None"
proof -
  let ?req = "listRequest namespace object relation"
  from assms [of "fst w"] obtain res s' where
    rd: "read (fst w) ?req = (Inr res, s')" and tok: "rs_ContinuationToken res \<noteq> []"
    by blast
  have "listLoop read namespace object relation (rs_ContinuationToken res) (rs_Tuples res)
          (s', snd w @ [(?req, Inr res)]) = None"
  proof (rule ccontr)
    assume "listLoop read namespace object relation (rs_ContinuationToken res)
              (rs_Tuples res) (s', snd w @ [(?req, Inr res)]) \<noteq> None"
    then obtain y where
      "listLoop read namespace object relation (rs_ContinuationToken res)
         (rs_Tuples res) (s', snd w @ [(?req, Inr res)]) = Some y"
      by blast
    from listLoop_never_returns [OF assms this] tok show False by simp
  qed
  with rd show ?thesis by (simp add: listRelation_def clientRead_def)
qed

text \<open>
  C3: the follow-up read does not carry the continuation token of the answer before it.
  With a client that answers the first call with a page and the token \<^verbatim>\<open>next\<close>, the
  second request of the collector has the empty token, as the first had.  With a server
  that pages by the token of the request, every read is answered with the first page, and
  the collector does not return.
\<close>

theorem zanzanaCollector_follow_up_read_drops_token:
  "(\<exists>out calls.
      zanzanaCollector (\<lambda>k. False) (\<lambda>c. []) [''view'']
        (scriptedClient
           [Inr \<lparr>rs_Tuples = [\<lparr>Key = \<lparr>User = ''user:u1'', Relation = ''view'',
                                       Object = ''folder:f1'', Condition = None\<rparr>\<rparr>],
                 rs_ContinuationToken = ''next''\<rparr>,
            Inr \<lparr>rs_Tuples = [\<lparr>Key = \<lparr>User = ''user:u2'', Relation = ''view'',
                                       Object = ''folder:f1'', Condition = None\<rparr>\<rparr>],
                 rs_ContinuationToken = []\<rparr>])
        ''folder:f1'' ''ns'' 0 = Some ((Some out, None), (Suc (Suc 0), calls)) \<and>
      map (\<lambda>x. case snd x of Inl err \<Rightarrow> [] | Inr res \<Rightarrow> rs_ContinuationToken res) calls =
        [''next'', []] \<and>
      map (\<lambda>x. rq_ContinuationToken (fst x)) calls = [[], []]) \<and>
   zanzanaCollector (\<lambda>k. False) (\<lambda>c. []) [''view'']
     (pagedServer
        [([], \<lparr>rs_Tuples = [\<lparr>Key = \<lparr>User = ''user:u1'', Relation = ''view'',
                                      Object = ''folder:f1'', Condition = None\<rparr>\<rparr>],
                rs_ContinuationToken = ''next''\<rparr>),
         (''next'', \<lparr>rs_Tuples = [\<lparr>Key = \<lparr>User = ''user:u2'', Relation = ''view'',
                                            Object = ''folder:f1'', Condition = None\<rparr>\<rparr>],
                      rs_ContinuationToken = []\<rparr>)])
     ''folder:f1'' ''ns'' () = None"
proof -
  let ?p1 = "\<lparr>rs_Tuples = [\<lparr>Key = \<lparr>User = ''user:u1'', Relation = ''view'',
                                    Object = ''folder:f1'', Condition = None\<rparr>\<rparr>],
              rs_ContinuationToken = ''next''\<rparr>"
  let ?p2 = "\<lparr>rs_Tuples = [\<lparr>Key = \<lparr>User = ''user:u2'', Relation = ''view'',
                                    Object = ''folder:f1'', Condition = None\<rparr>\<rparr>],
              rs_ContinuationToken = []\<rparr>"
  let ?read = "scriptedClient [Inr ?p1, Inr ?p2]"
  let ?server = "pagedServer [([], ?p1), (''next'', ?p2)]"
  let ?req = "listRequest ''ns'' ''folder:f1'' ''view''"
  have r1: "?read 0 ?req = (Inr ?p1, Suc 0)"
    by (simp add: scriptedClient_def)
  have r2: "?read (Suc 0) ?req = (Inr ?p2, Suc (Suc 0))"
    by (simp add: scriptedClient_def)
  have "listRelation ?read ''ns'' ''folder:f1'' ''view'' (0, []) =
      Some ((rs_Tuples ?p1 @ rs_Tuples ?p2, None),
            (Suc (Suc 0), [(?req, Inr ?p1), (?req, Inr ?p2)]))"
    using listRelation_page [where read = ?read and s = 0 and tr = "[]", OF r1]
      listLoop_page [where read = ?read and s = "Suc 0" and tr = "[(?req, Inr ?p1)]"
        and c = "''next''" and acc = "rs_Tuples ?p1", OF _ r2]
    by (simp add: listLoop_done)
  then have scripted: "\<exists>out calls.
      zanzanaCollector (\<lambda>k. False) (\<lambda>c. []) [''view''] ?read ''folder:f1'' ''ns'' 0 =
        Some ((Some out, None), (Suc (Suc 0), calls)) \<and>
      map (\<lambda>x. case snd x of Inl err \<Rightarrow> [] | Inr res \<Rightarrow> rs_ContinuationToken res) calls =
        [''next'', []] \<and>
      map (\<lambda>x. rq_ContinuationToken (fst x)) calls = [[], []]"
    by (simp add: zanzanaCollector_def listRequest_def)
  have more: "\<exists>res s'. ?server s ?req = (Inr res, s') \<and> rs_ContinuationToken res \<noteq> []"
    for s
    by (simp add: pagedServer_def listRequest_def)
  have "listRelation ?server ''ns'' ''folder:f1'' ''view'' ((), []) = None"
    by (rule listRelation_never_returns) (rule more)
  then have server: "zanzanaCollector (\<lambda>k. False) (\<lambda>c. []) [''view''] ?server
      ''folder:f1'' ''ns'' () = None"
    by (simp add: zanzanaCollector_def)
  from scripted server show ?thesis by (rule conjI)
qed

end
